theory Spec2Isabelle
  imports Main "HOL-Library.Multiset" "HOL-Library.Log_Nat"
begin

section \<open>Time\<close>

text \<open>
  An instant is a number of microseconds since the epoch (the resolution of Python's
  \<^verbatim>\<open>datetime\<close>). A \<^verbatim>\<open>timedelta\<close> is a number of microseconds, a \<^verbatim>\<open>date\<close> is a day number,
  a \<^verbatim>\<open>time\<close> is a number of microseconds since midnight. The interval arithmetic of the
  free-slot calculator works on the instants of its datetimes; the datetimes that the
  handler and the resolver add to and subtract are modelled with their wall clock, below.
\<close>

type_synonym instant = int
type_synonym range = "instant \<times> instant"


definition minutes :: "int \<Rightarrow> int" where
  "minutes n = n * 60000000"

definition hours :: "int \<Rightarrow> int" where
  "hours n = n * 3600000000"

definition days :: "int \<Rightarrow> int" where
  "days n = n * 86400000000"

text \<open>\<^verbatim>\<open>dt.time.min\<close> is 00:00:00 and \<^verbatim>\<open>dt.time.max\<close> is 23:59:59.999999.\<close>

definition time_min :: int where
  "time_min = 0"

definition time_max :: int where
  "time_max = 86399999999"

text \<open>
  The zone database is not part of the repository, so the \<^verbatim>\<open>ZoneInfo\<close> of a request is
  the functions through which the code uses it: \<open>combine\<close> is the instant of
  \<^verbatim>\<open>datetime.combine(date, time, tzinfo=zone)\<close>; \<open>utcoffset\<close> is the offset from UTC that
  the zone gives to a wall clock reading (microseconds since the epoch, read on the local
  clock) with its \<^verbatim>\<open>fold\<close>; \<open>fromutc\<close> is the wall clock reading of an instant.
\<close>

record zone =
  combine :: "int \<Rightarrow> int \<Rightarrow> instant"
  utcoffset :: "int \<Rightarrow> bool \<Rightarrow> int"
  fromutc :: "instant \<Rightarrow> int"

text \<open>A zone with a constant offset from UTC (Asia/Tokyo, the default, is nine hours ahead).\<close>

definition fixed_zone :: "int \<Rightarrow> zone" where
  "fixed_zone off =
     \<lparr>combine = (\<lambda>d tod. d * 86400000000 + tod - off),
      utcoffset = (\<lambda>w f. off),
      fromutc = (\<lambda>t. t + off)\<rparr>"

text \<open>The process-wide working window: \<^verbatim>\<open>WORK_START\<close> and \<^verbatim>\<open>WORK_END\<close>, parsed as times of day.\<close>

record config =
  work_start :: int
  work_end :: int

definition default_config :: config where
  "default_config = \<lparr>work_start = hours 9, work_end = hours 18\<rparr>"

section \<open>Errors\<close>

datatype error =
  ValueError | TypeError | KeyError | AttributeError | OverflowError | UpstreamFailure

section \<open>Datetimes\<close>

text \<open>
  A timezone-aware \<^verbatim>\<open>datetime\<close> as the handler holds it: its wall clock reading, in
  microseconds since the epoch on its own clock, and its \<^verbatim>\<open>tzinfo\<close>. \<^verbatim>\<open>_parse_rfc3339\<close> gives
  a string with an offset a fixed-offset \<^verbatim>\<open>tzinfo\<close> (\<open>Fixed wall offset\<close>), and a string
  without one the \<^verbatim>\<open>ZoneInfo\<close> of the request (\<open>Zoned wall fold\<close>), which is one object
  for all the datetimes of a request.
\<close>

datatype pydt = Fixed int int | Zoned int bool

definition min_wall :: int where
  "min_wall = - 62135596800000000"

definition max_wall :: int where
  "max_wall = 253402300799999999"

text \<open>The instant of a datetime: its wall clock reading less its offset from UTC.\<close>

fun utc_of :: "zone \<Rightarrow> pydt \<Rightarrow> instant" where
  "utc_of z (Fixed w off) = w - off"
| "utc_of z (Zoned w f) = w - utcoffset z w f"

text \<open>
  \<^verbatim>\<open>a - b\<close> on datetimes, in microseconds. Python subtracts the wall clock readings when
  both datetimes have the same \<^verbatim>\<open>tzinfo\<close> object, and the instants otherwise (for two
  fixed offsets the two agree).
\<close>

fun dt_sub :: "zone \<Rightarrow> pydt \<Rightarrow> pydt \<Rightarrow> int" where
  "dt_sub z (Zoned w f) (Zoned w' f') = w - w'"
| "dt_sub z a b = utc_of z a - utc_of z b"

text \<open>
  \<^verbatim>\<open>d + timedelta\<close>: the wall clock reading moves by the timedelta, the \<^verbatim>\<open>tzinfo\<close> stays
  and the fold is cleared; a result before year 1 or after year 9999 raises.
\<close>

fun dt_add :: "pydt \<Rightarrow> int \<Rightarrow> error + pydt" where
  "dt_add (Fixed w off) delta =
     (if w + delta < min_wall \<or> max_wall < w + delta then Inl OverflowError
      else Inr (Fixed (w + delta) off))"
| "dt_add (Zoned w f) delta =
     (if w + delta < min_wall \<or> max_wall < w + delta then Inl OverflowError
      else Inr (Zoned (w + delta) False))"

text \<open>\<^verbatim>\<open>datetime.combine(date, time, tzinfo=ZoneInfo(timezone))\<close> as a datetime.\<close>

definition local_dt :: "int \<Rightarrow> int \<Rightarrow> pydt" where
  "local_dt d tod = Zoned (d * 86400000000 + tod) False"

text \<open>
  \<^verbatim>\<open>d.astimezone(ZoneInfo(timezone)).date()\<close>. A datetime of the request's zone is returned
  as it is. Any other is moved to UTC and from there to the zone, and either step raises
  when it leaves the years 1 to 9999.
\<close>

fun local_date :: "zone \<Rightarrow> pydt \<Rightarrow> error + int" where
  "local_date z (Zoned w f) = Inr (w div 86400000000)"
| "local_date z (Fixed w off) =
     (if w - off < min_wall \<or> max_wall < w - off then Inl OverflowError
      else if fromutc z (w - off) < min_wall \<or> max_wall < fromutc z (w - off) then Inl OverflowError
      else Inr (fromutc z (w - off) div 86400000000))"

text \<open>
  Python's floats. \<open>fl p q\<close> is the double nearest to \<open>p / q\<close> (ties to the even
  mantissa), as a fraction, for \<open>p \<ge> 0\<close> and \<open>q > 0\<close> and a quotient in the range of
  the normal doubles, which the microseconds and seconds of a \<^verbatim>\<open>timedelta\<close> are: this is
  the result of the true division of two integers and of the division of two floats.
\<close>

definition round_half_even :: "int \<Rightarrow> int \<Rightarrow> int" where
  "round_half_even n d =
     (let q = n div d; r = n mod d
      in if 2 * r < d then q else if d < 2 * r then q + 1 else if even q then q else q + 1)"

definition scaled :: "int \<Rightarrow> int \<Rightarrow> int \<Rightarrow> int \<times> int" where
  "scaled p q e = (if 0 \<le> e then (p, q * 2 ^ nat e) else (p * 2 ^ nat (- e), q))"

definition fl :: "int \<Rightarrow> int \<Rightarrow> int \<times> int" where
  "fl p q =
     (if p = 0 then (0, 1)
      else let e' = bitlen p - bitlen q - 53;
               e = (if fst (scaled p q e') \<ge> 2 ^ 53 * snd (scaled p q e') then e' + 1 else e');
               m = round_half_even (fst (scaled p q e)) (snd (scaled p q e))
           in if 0 \<le> e then (m * 2 ^ nat e, 1) else (m, 2 ^ nat (- e)))"

text \<open>
  \<^verbatim>\<open>abs(td.total_seconds()) <= 3600\<close> and \<^verbatim>\<open>int(td.total_seconds() / 60)\<close> for a \<^verbatim>\<open>timedelta\<close>
  of the given microseconds: \<^verbatim>\<open>total_seconds()\<close> is the float of the microseconds divided
  by \<open>10\<^sup>6\<close>, the division by 60 is a float division, and \<^verbatim>\<open>int\<close> rounds towards zero.
\<close>

definition within_3600_seconds :: "int \<Rightarrow> bool" where
  "within_3600_seconds us = (let (n, d) = fl \<bar>us\<bar> 1000000 in n \<le> 3600 * d)"

definition whole_minutes :: "int \<Rightarrow> int" where
  "whole_minutes us =
     (let (n, d) = fl \<bar>us\<bar> 1000000;
          (n', d') = fl n (d * 60)
      in sgn us * (n' div d'))"

section \<open>Events\<close>

text \<open>
  The value under \<^verbatim>\<open>"start"\<close> or \<^verbatim>\<open>"end"\<close> of a calendar event: a \<^verbatim>\<open>dateTime\<close> string
  with an offset, held as the instant that \<^verbatim>\<open>_parse_rfc3339\<close> makes of it; a \<^verbatim>\<open>dateTime\<close>
  string without an offset, held as the wall clock reading it spells, to be read in the
  request's zone; or a \<^verbatim>\<open>date\<close> string (an all-day event), held as its day number.
\<close>

datatype gtime = DateTime instant | LocalDateTime int | Date int

text \<open>
  An event is the dictionary that the calendar returns. Each key the code reads is an
  optional field (\<open>None\<close>: the key is absent; the calendar sends no key with a null
  value); \<open>ev_extra\<close> says whether the dictionary has any other key, which decides
  its truth value together with the fields.
\<close>

record event =
  ev_id :: "string option"
  ev_status :: "string option"
  ev_description :: "string option"
  ev_start :: "gtime option"
  ev_end :: "gtime option"
  ev_extra :: bool

definition event_truthy :: "event \<Rightarrow> bool" where
  "event_truthy e =
     (ev_extra e \<or> ev_id e \<noteq> None \<or> ev_status e \<noteq> None \<or> ev_description e \<noteq> None
      \<or> ev_start e \<noteq> None \<or> ev_end e \<noteq> None)"

text \<open>
  \<^verbatim>\<open>_event_range\<close>, as the instants of the datetimes it returns. The branch is chosen by
  the start value alone (\<^verbatim>\<open>"T" in start\<close>); a missing start raises \<^verbatim>\<open>TypeError\<close>. In the
  \<^verbatim>\<open>dateTime\<close> branch the end goes through \<^verbatim>\<open>_parse_rfc3339\<close>, which returns \<^verbatim>\<open>None\<close> for a
  missing value and parses a bare date as midnight of that day in the zone. In the
  \<^verbatim>\<open>date\<close> branch both values go through \<^verbatim>\<open>date.fromisoformat\<close>, which raises on a missing
  value and on a \<^verbatim>\<open>dateTime\<close> string.
\<close>

definition event_range :: "event \<Rightarrow> zone \<Rightarrow> error + (instant \<times> instant option)" where
  "event_range e z =
     (case ev_start e of
        None \<Rightarrow> Inl TypeError
      | Some (DateTime s) \<Rightarrow>
          Inr (s, (case ev_end e of
                     None \<Rightarrow> None
                   | Some (DateTime t) \<Rightarrow> Some t
                   | Some (LocalDateTime w') \<Rightarrow> Some (w' - utcoffset z w' False)
                   | Some (Date d) \<Rightarrow> Some (combine z d time_min)))
      | Some (LocalDateTime w) \<Rightarrow>
          Inr (w - utcoffset z w False,
               (case ev_end e of
                  None \<Rightarrow> None
                | Some (DateTime t) \<Rightarrow> Some t
                | Some (LocalDateTime w') \<Rightarrow> Some (w' - utcoffset z w' False)
                | Some (Date d) \<Rightarrow> Some (combine z d time_min)))
      | Some (Date d) \<Rightarrow>
          (case ev_end e of
             None \<Rightarrow> Inl TypeError
           | Some (DateTime t) \<Rightarrow> Inl ValueError
           | Some (LocalDateTime w) \<Rightarrow> Inl ValueError
           | Some (Date d') \<Rightarrow> Inr (combine z d time_min, Some (combine z d' time_min))))"

text \<open>
  The start that \<^verbatim>\<open>_event_range\<close> returns, as the datetime itself, for the subtraction
  of the resolver, with the errors of \<^verbatim>\<open>_event_range\<close>. A \<^verbatim>\<open>dateTime\<close> with an offset has
  a fixed offset, which the subtraction does not read beyond the instant: it is held at
  offset zero. A \<^verbatim>\<open>dateTime\<close> without an offset and an all-day start (midnight of the day,
  by \<^verbatim>\<open>datetime.combine\<close>) carry the zone of the request.
\<close>

definition event_start :: "event \<Rightarrow> error + pydt" where
  "event_start e =
     (case ev_start e of
        None \<Rightarrow> Inl TypeError
      | Some (DateTime s) \<Rightarrow> Inr (Fixed s 0)
      | Some (LocalDateTime w) \<Rightarrow> Inr (Zoned w False)
      | Some (Date d) \<Rightarrow>
          (case ev_end e of
             None \<Rightarrow> Inl TypeError
           | Some (DateTime t) \<Rightarrow> Inl ValueError
           | Some (LocalDateTime w) \<Rightarrow> Inl ValueError
           | Some (Date d') \<Rightarrow> Inr (local_dt d time_min)))"

section \<open>Conflict detector\<close>

text \<open>Python's truth value of an \<^verbatim>\<open>Optional[str]\<close>: false for \<^verbatim>\<open>None\<close> and for the empty string.\<close>

definition str_truthy :: "string option \<Rightarrow> bool" where
  "str_truthy s = (case s of None \<Rightarrow> False | Some v \<Rightarrow> v \<noteq> [])"

fun has_conflict :: "event list \<Rightarrow> string option \<Rightarrow> bool" where
  "has_conflict [] exclude_event_id = False"
| "has_conflict (e # es) exclude_event_id =
     (if ev_status e = Some ''cancelled'' then has_conflict es exclude_event_id
      else if str_truthy exclude_event_id \<and> ev_id e = exclude_event_id
           then has_conflict es exclude_event_id
      else True)"

section \<open>Interval model\<close>

text \<open>
  The loop of \<^verbatim>\<open>_merge_busy_ranges\<close>: \<open>merged\<close> is the list built so far, whose last
  element is read and replaced (\<^verbatim>\<open>merged[-1]\<close>) or after which a new range is appended.
  The list is never empty here: it starts as \<^verbatim>\<open>[ranges[0]]\<close>.
\<close>

fun merge_loop :: "range list \<Rightarrow> range list \<Rightarrow> range list" where
  "merge_loop merged [] = merged"
| "merge_loop merged ((start, end) # rest) =
     (let (last_start, last_end) = last merged in
      if start \<le> last_end
      then merge_loop (butlast merged @ [(last_start, max last_end end)]) rest
      else merge_loop (merged @ [(start, end)]) rest)"

text \<open>
  The value that \<^verbatim>\<open>_merge_busy_ranges\<close> returns. \<^verbatim>\<open>list.sort(key=...)\<close> is a stable sort
  by the key, as \<open>sort_key\<close> is.
\<close>

definition merge_busy_ranges :: "range list \<Rightarrow> range list" where
  "merge_busy_ranges ranges =
     (if ranges = [] then []
      else let sorted_ranges = sort_key fst ranges
           in merge_loop [hd sorted_ranges] (tl sorted_ranges))"

text \<open>
  The same function with its effect on the caller's list. List objects live in a heap,
  addressed by their index; a new list object is allocated at the end of the heap. The
  call is given the address of its argument and returns the new heap with the address of
  the returned list. \<^verbatim>\<open>ranges.sort(...)\<close> overwrites the object at the argument's address.
\<close>

type_synonym heap = "range list list"

definition merge_busy_ranges_heap :: "heap \<Rightarrow> nat \<Rightarrow> heap \<times> nat" where
  "merge_busy_ranges_heap h a =
     (if h ! a = [] then (h @ [[]], length h)
      else let h' = h[a := sort_key fst (h ! a)];
               merged = merge_loop [hd (h' ! a)] (tl (h' ! a))
           in (h' @ [merged], length h'))"

section \<open>Free-slot calculator\<close>

text \<open>
  The first loop of \<^verbatim>\<open>_compute_free_slots\<close>: the busy ranges of the non-cancelled events
  that meet the window, clipped to it. An event whose range cannot be read, or has no end,
  raises.
\<close>

fun busy_ranges :: "instant \<Rightarrow> instant \<Rightarrow> zone \<Rightarrow> event list \<Rightarrow> error + range list" where
  "busy_ranges window_start window_end z [] = Inr []"
| "busy_ranges window_start window_end z (e # es) =
     (if ev_status e = Some ''cancelled'' then busy_ranges window_start window_end z es
      else case event_range e z of
             Inl err \<Rightarrow> Inl err
           | Inr (start_dt, None) \<Rightarrow> Inl TypeError
           | Inr (start_dt, Some end_dt) \<Rightarrow>
               if end_dt \<le> window_start \<or> start_dt \<ge> window_end
               then busy_ranges window_start window_end z es
               else (case busy_ranges window_start window_end z es of
                       Inl err \<Rightarrow> Inl err
                     | Inr busy \<Rightarrow>
                         Inr ((max start_dt window_start, min end_dt window_end) # busy)))"

text \<open>The second loop: the gaps before each busy range, and the cursor after the last.\<close>

fun free_loop :: "instant \<Rightarrow> range list \<Rightarrow> range list \<Rightarrow> instant \<times> range list" where
  "free_loop cursor free [] = (cursor, free)"
| "free_loop cursor free ((start, end) # busy) =
     free_loop (max cursor end) (if cursor < start then free @ [(cursor, start)] else free) busy"

definition free_ranges :: "instant \<Rightarrow> instant \<Rightarrow> range list \<Rightarrow> range list" where
  "free_ranges window_start window_end busy =
     (let (cursor, free) = free_loop window_start [] busy
      in if cursor < window_end then free @ [(cursor, window_end)] else free)"

definition compute_free_slots ::
  "config \<Rightarrow> event list \<Rightarrow> int \<Rightarrow> zone \<Rightarrow> int \<Rightarrow> error + range list" where
  "compute_free_slots cfg events target_date z duration_minutes =
     (let window_start = combine z target_date (work_start cfg);
          window_end = combine z target_date (work_end cfg)
      in case busy_ranges window_start window_end z events of
           Inl err \<Rightarrow> Inl err
         | Inr busy \<Rightarrow>
             Inr (filter (\<lambda>(s, e). e - s \<ge> minutes duration_minutes)
                    (free_ranges window_start window_end (merge_busy_ranges busy))))"

section \<open>Target event resolver\<close>

text \<open>Python's \<^verbatim>\<open>needle in haystack\<close> on strings.\<close>

fun starts_with :: "string \<Rightarrow> string \<Rightarrow> bool" where
  "starts_with [] ys = True"
| "starts_with (x # xs) [] = False"
| "starts_with (x # xs) (y # ys) = (x = y \<and> starts_with xs ys)"

fun contains :: "string \<Rightarrow> string \<Rightarrow> bool" where
  "contains needle [] = (needle = [])"
| "contains needle (y # ys) = (starts_with needle (y # ys) \<or> contains needle ys)"

definition owner_marker :: "string \<Rightarrow> string" where
  "owner_marker user_id = ''LINE_USER_ID:'' @ user_id"

text \<open>
  The calls that a request makes to its collaborators, in the order they are issued:
  the calendar's \<^verbatim>\<open>list\<close>, \<^verbatim>\<open>insert\<close>, \<^verbatim>\<open>update\<close> and \<^verbatim>\<open>delete\<close>, and the generation of
  a refusal message from the slots that \<^verbatim>\<open>_format_slots\<close> was given.
\<close>

record event_body =
  b_summary :: string
  b_description :: string
  b_start :: pydt
  b_end :: pydt

datatype call =
    CalList pydt pydt
  | CalInsert event_body
  | CalUpdate string event_body
  | CalDelete string
  | GenRefusal "range list"

text \<open>
  The collaborators of one request. Within a request every \<^verbatim>\<open>list\<close> call precedes the only
  mutation, so \<open>cal_list\<close> is the snapshot of the calendar at the start of the request: the
  events (ordered by start time, as requested with \<^verbatim>\<open>orderBy\<close>) for the two datetimes that
  \<^verbatim>\<open>_list_events\<close> is given, or the exception of the call. \<open>exec\<close> is the outcome of any
  other call: \<open>None\<close> when it returns, the exception otherwise.
\<close>

record collab =
  cal_list :: "pydt \<Rightarrow> pydt \<Rightarrow> error + event list"
  exec :: "call \<Rightarrow> error option"

definition list_events :: "collab \<Rightarrow> pydt \<Rightarrow> pydt \<Rightarrow> call list \<times> (error + event list)" where
  "list_events co time_min' time_max' = ([CalList time_min' time_max'], cal_list co time_min' time_max')"

text \<open>
  The loop of \<^verbatim>\<open>_find_target_event\<close>. A \<^verbatim>\<open>datetime\<close> is always true, so \<^verbatim>\<open>if target_dt\<close>
  tests for \<^verbatim>\<open>None\<close>.
\<close>

fun scan_events :: "string \<Rightarrow> pydt option \<Rightarrow> zone \<Rightarrow> event list \<Rightarrow> error + event option" where
  "scan_events user_id target_dt z [] = Inr None"
| "scan_events user_id target_dt z (e # es) =
     (let description = (case ev_description e of None \<Rightarrow> [] | Some d \<Rightarrow> d) in
      if user_id \<noteq> [] \<and> \<not> contains (owner_marker user_id) description
      then scan_events user_id target_dt z es
      else case target_dt of
             None \<Rightarrow> Inr (Some e)
           | Some t \<Rightarrow>
               (case event_start e of
                  Inl err \<Rightarrow> Inl err
                | Inr start_dt \<Rightarrow>
                    if within_3600_seconds (dt_sub z start_dt t) then Inr (Some e)
                    else scan_events user_id target_dt z es))"

text \<open>
  The search window: four hours either side of the target, or thirty days from now, moved
  on the wall clock as Python's addition does. \<open>now\<close> is the wall clock reading and the
  fold of \<^verbatim>\<open>datetime.now(ZoneInfo(tz))\<close>.
\<close>

definition search_window :: "pydt option \<Rightarrow> int \<times> bool \<Rightarrow> error + (pydt \<times> pydt)" where
  "search_window target_dt now =
     (case target_dt of
        Some t \<Rightarrow>
          (case dt_add t (- hours 4) of
             Inl err \<Rightarrow> Inl err
           | Inr time_min' \<Rightarrow>
               (case dt_add t (hours 4) of
                  Inl err \<Rightarrow> Inl err
                | Inr time_max' \<Rightarrow> Inr (time_min', time_max')))
      | None \<Rightarrow>
          (case dt_add (Zoned (fst now) (snd now)) (days 30) of
             Inl err \<Rightarrow> Inl err
           | Inr time_max' \<Rightarrow> Inr (Zoned (fst now) (snd now), time_max')))"

definition find_target_event ::
  "collab \<Rightarrow> string \<Rightarrow> pydt option \<Rightarrow> zone \<Rightarrow> int \<times> bool \<Rightarrow> call list \<times> (error + event option)" where
  "find_target_event co user_id target_dt z now =
     (case search_window target_dt now of
        Inl err \<Rightarrow> ([], Inl err)
      | Inr (time_min', time_max') \<Rightarrow>
          (let (tr, listed) = list_events co time_min' time_max'
           in case listed of
                Inl err \<Rightarrow> (tr, Inl err)
              | Inr events \<Rightarrow> (tr, scan_events user_id target_dt z events)))"

section \<open>Booking decision\<close>

text \<open>
  The result of \<^verbatim>\<open>_extract_intent\<close>: the intent is whatever string the extraction gave
  (\<^verbatim>\<open>"new"\<close> when it gave none), \<open>notes_str\<close> is the \<^verbatim>\<open>notes\<close> entry, and the zone is
  the one named by the \<^verbatim>\<open>timezone\<close> entry.
\<close>

record intent_data =
  intent :: string
  start_dt :: "pydt option"
  end_dt :: "pydt option"
  target_dt :: "pydt option"
  summary :: string
  notes_str :: string
  timezone :: zone

text \<open>
  What a request ends with: the status that \<^verbatim>\<open>_handle_message\<close> writes to its log
  (\<^verbatim>\<open>created\<close>, \<^verbatim>\<open>updated\<close>, \<^verbatim>\<open>cancelled\<close>, \<^verbatim>\<open>not_found\<close>, \<^verbatim>\<open>conflict\<close>, \<^verbatim>\<open>error\<close>),
  together with the values the handler holds when it returns with that status: the booked
  range, the id of the event it changed or deleted, the list \<^verbatim>\<open>slots\<close> of alternatives, the
  exception it caught.
\<close>

datatype outcome =
    Created "pydt \<times> pydt"
  | Updated string "pydt \<times> pydt"
  | Cancelled string
  | Not_found
  | Conflict "range list"
  | Failed error

text \<open>
  \<^verbatim>\<open>str.strip()\<close>. A string is the bytes of its UTF-8 encoding. The whitespace of Python
  is the ten characters of ASCII below, U+0085 and U+00A0 (two bytes each), and U+1680,
  U+2000 to U+200A, U+2028, U+2029, U+202F, U+205F and U+3000 (three bytes each). In
  UTF-8 the first byte of a character says how long it is and its last byte is no
  character of ASCII, so the characters can be taken off either end byte by byte.
\<close>

definition is_space :: "char \<Rightarrow> bool" where
  "is_space c = (c \<in> set [CHR 0x09, CHR 0x0A, CHR 0x0B, CHR 0x0C, CHR 0x0D,
                            CHR 0x1C, CHR 0x1D, CHR 0x1E, CHR 0x1F, CHR 0x20])"

definition is_space2 :: "char \<Rightarrow> char \<Rightarrow> bool" where
  "is_space2 a b = (a = CHR 0xC2 \<and> (b = CHR 0x85 \<or> b = CHR 0xA0))"

definition is_space3 :: "char \<Rightarrow> char \<Rightarrow> char \<Rightarrow> bool" where
  "is_space3 a b c =
     ((a = CHR 0xE1 \<and> b = CHR 0x9A \<and> c = CHR 0x80)
      \<or> (a = CHR 0xE2 \<and> b = CHR 0x80
          \<and> c \<in> set [CHR 0x80, CHR 0x81, CHR 0x82, CHR 0x83, CHR 0x84, CHR 0x85, CHR 0x86,
                        CHR 0x87, CHR 0x88, CHR 0x89, CHR 0x8A, CHR 0xA8, CHR 0xA9, CHR 0xAF])
      \<or> (a = CHR 0xE2 \<and> b = CHR 0x81 \<and> c = CHR 0x9F)
      \<or> (a = CHR 0xE3 \<and> b = CHR 0x80 \<and> c = CHR 0x80))"

fun lstrip :: "string \<Rightarrow> string" where
  "lstrip (a # b # c # s) =
     (if is_space a then lstrip (b # c # s)
      else if is_space2 a b then lstrip (c # s)
      else if is_space3 a b c then lstrip s
      else a # b # c # s)"
| "lstrip [a, b] = (if is_space a then lstrip [b] else if is_space2 a b then [] else [a, b])"
| "lstrip [a] = (if is_space a then [] else [a])"
| "lstrip [] = []"

text \<open>The same from the other end, on the reversed string.\<close>

fun rstrip_rev :: "string \<Rightarrow> string" where
  "rstrip_rev (c # b # a # s) =
     (if is_space c then rstrip_rev (b # a # s)
      else if is_space2 b c then rstrip_rev (a # s)
      else if is_space3 a b c then rstrip_rev s
      else c # b # a # s)"
| "rstrip_rev [c, b] = (if is_space c then rstrip_rev [b] else if is_space2 b c then [] else [c, b])"
| "rstrip_rev [c] = (if is_space c then [] else [c])"
| "rstrip_rev [] = []"

definition strip :: "string \<Rightarrow> string" where
  "strip s = rev (rstrip_rev (rev (lstrip s)))"

definition make_body :: "string \<Rightarrow> string \<Rightarrow> intent_data \<Rightarrow> pydt \<Rightarrow> pydt \<Rightarrow> event_body" where
  "make_body user_id mode d start end =
     \<lparr>b_summary = summary d,
      b_description = strip (owner_marker user_id @ [CHR 0x0A] @ ''MODE:'' @ mode @ [CHR 0x0A] @ notes_str d),
      b_start = start,
      b_end = end\<rparr>"

text \<open>
  \<^verbatim>\<open>int((end_dt - start_dt).total_seconds() / 60)\<close>: the difference as Python takes it, in
  whole minutes.
\<close>

definition duration_minutes :: "zone \<Rightarrow> pydt \<Rightarrow> pydt \<Rightarrow> int" where
  "duration_minutes z start end = whole_minutes (dt_sub z end start)"

text \<open>The branch taken on a conflict: the free slots of the day of the proposed start.\<close>

definition refuse :: "config \<Rightarrow> collab \<Rightarrow> zone \<Rightarrow> pydt \<Rightarrow> pydt \<Rightarrow> call list \<times> outcome" where
  "refuse cfg co z start end =
     (case local_date z start of
        Inl err \<Rightarrow> ([], Failed err)
      | Inr day_start \<Rightarrow>
     (let (tr, listed) = list_events co (local_dt day_start time_min) (local_dt day_start time_max)
      in case listed of
           Inl err \<Rightarrow> (tr, Failed err)
         | Inr day_events \<Rightarrow>
             (case compute_free_slots cfg day_events day_start z (duration_minutes z start end) of
                Inl err \<Rightarrow> (tr, Failed err)
              | Inr slots \<Rightarrow>
                  (case exec co (GenRefusal (take 3 slots)) of
                     Some err \<Rightarrow> (tr @ [GenRefusal (take 3 slots)], Failed err)
                   | None \<Rightarrow> (tr @ [GenRefusal (take 3 slots)], Conflict slots)))))"

text \<open>The branch taken without a conflict: update the target of a change, insert otherwise.\<close>

definition commit :: "collab \<Rightarrow> string \<Rightarrow> event option \<Rightarrow> event_body \<Rightarrow> call list \<times> outcome" where
  "commit co intent' target_event body =
     (case (if intent' = ''change'' then target_event else None) of
        Some t \<Rightarrow>
          (if event_truthy t
           then (case ev_id t of
                   None \<Rightarrow> ([], Failed KeyError)
                 | Some i \<Rightarrow>
                     (case exec co (CalUpdate i body) of
                        Some err \<Rightarrow> ([CalUpdate i body], Failed err)
                      | None \<Rightarrow> ([CalUpdate i body], Updated i (b_start body, b_end body))))
           else (case exec co (CalInsert body) of
                   Some err \<Rightarrow> ([CalInsert body], Failed err)
                 | None \<Rightarrow> ([CalInsert body], Created (b_start body, b_end body))))
      | None \<Rightarrow>
          (case exec co (CalInsert body) of
             Some err \<Rightarrow> ([CalInsert body], Failed err)
           | None \<Rightarrow> ([CalInsert body], Created (b_start body, b_end body))))"

text \<open>\<^verbatim>\<open>target_event["id"] if target_event else None\<close>.\<close>

definition exclude_id_of :: "event option \<Rightarrow> error + string option" where
  "exclude_id_of target_event =
     (case target_event of
        None \<Rightarrow> Inr None
      | Some t \<Rightarrow>
          if event_truthy t
          then (case ev_id t of None \<Rightarrow> Inl KeyError | Some i \<Rightarrow> Inr (Some i))
          else Inr None)"

text \<open>
  Lines 430 to 471 of the handler, shared by the new and change intents. Formatting a
  missing start or end for the \<^verbatim>\<open>list\<close> call raises before the call is made.
\<close>

definition book ::
  "config \<Rightarrow> collab \<Rightarrow> string \<Rightarrow> string \<Rightarrow> intent_data \<Rightarrow> event option \<Rightarrow> call list \<times> outcome" where
  "book cfg co user_id mode d target_event =
     (case start_dt d of
        None \<Rightarrow> ([], Failed AttributeError)
      | Some start \<Rightarrow>
     (case end_dt d of
        None \<Rightarrow> ([], Failed AttributeError)
      | Some end \<Rightarrow>
     (let (tr, listed) = list_events co start end in
      case listed of
        Inl err \<Rightarrow> (tr, Failed err)
      | Inr events \<Rightarrow>
     (case exclude_id_of target_event of
        Inl err \<Rightarrow> (tr, Failed err)
      | Inr exclude_id \<Rightarrow>
          if has_conflict events exclude_id
          then (let (tr', out) = refuse cfg co (timezone d) start end in (tr @ tr', out))
          else (let (tr', out) = commit co (intent d) target_event (make_body user_id mode d start end)
                in (tr @ tr', out))))))"

text \<open>
  \<^verbatim>\<open>_handle_message\<close> from its \<^verbatim>\<open>try\<close> on, given the result of \<^verbatim>\<open>_extract_intent\<close> (or its
  exception), the detected mode and the current time (the wall clock reading and fold of
  \<^verbatim>\<open>datetime.now\<close> in the request's zone). Every exception is caught and
  becomes the \<^verbatim>\<open>error\<close> status. Appending the log row afterwards touches no calendar
  and is left out.
\<close>

definition handle_message ::
  "config \<Rightarrow> collab \<Rightarrow> string \<Rightarrow> string \<Rightarrow> int \<times> bool \<Rightarrow> error + intent_data \<Rightarrow> call list \<times> outcome" where
  "handle_message cfg co user_id mode now extracted =
     (case extracted of
        Inl err \<Rightarrow> ([], Failed err)
      | Inr d \<Rightarrow>
          if (intent d = ''new'' \<or> intent d = ''change'') \<and> (start_dt d = None \<or> end_dt d = None)
          then ([], Failed ValueError)
          else if intent d = ''cancel''
          then (let (tr, found) = find_target_event co user_id (target_dt d) (timezone d) now in
                case found of
                  Inl err \<Rightarrow> (tr, Failed err)
                | Inr None \<Rightarrow> (tr, Not_found)
                | Inr (Some t) \<Rightarrow>
                    if \<not> event_truthy t then (tr, Not_found)
                    else (case ev_id t of
                            None \<Rightarrow> (tr, Failed KeyError)
                          | Some i \<Rightarrow>
                              (case exec co (CalDelete i) of
                                 Some err \<Rightarrow> (tr @ [CalDelete i], Failed err)
                               | None \<Rightarrow> (tr @ [CalDelete i], Cancelled i))))
          else if intent d = ''change''
          then (let (tr, found) = find_target_event co user_id (target_dt d) (timezone d) now in
                case found of
                  Inl err \<Rightarrow> (tr, Failed err)
                | Inr None \<Rightarrow> (tr, Not_found)
                | Inr (Some t) \<Rightarrow>
                    if \<not> event_truthy t then (tr, Not_found)
                    else (let (tr', out) = book cfg co user_id mode d (Some t) in (tr @ tr', out)))
          else book cfg co user_id mode d None)"

text \<open>
  The calendar after a request: the mutating calls of the trace applied in order to the
  store, whatever the store is and whatever each call does to it.
\<close>

fun is_mutation :: "call \<Rightarrow> bool" where
  "is_mutation (CalInsert b) = True"
| "is_mutation (CalUpdate i b) = True"
| "is_mutation (CalDelete i) = True"
| "is_mutation (CalList a b) = False"
| "is_mutation (GenRefusal slots) = False"

definition store_after :: "('s \<Rightarrow> call \<Rightarrow> 's) \<Rightarrow> 's \<Rightarrow> call list \<Rightarrow> 's" where
  "store_after apply_call store tr = foldl apply_call store (filter is_mutation tr)"

section \<open>Vocabulary of the properties\<close>

text \<open>
  A range is read as the half-open interval from its start to its end: \<open>covers r t\<close> says
  that the instant \<open>t\<close> lies in \<open>r\<close>, and \<open>points rs\<close> is the union of the ranges of a list.
\<close>

definition covers :: "range \<Rightarrow> instant \<Rightarrow> bool" where
  "covers r t = (fst r \<le> t \<and> t < snd r)"

definition points :: "range list \<Rightarrow> instant set" where
  "points rs = {t. \<exists>r \<in> set rs. covers r t}"

text \<open>How many ranges of a list cover an instant.\<close>

definition cover_count :: "instant \<Rightarrow> range list \<Rightarrow> nat" where
  "cover_count t rs = length (filter (\<lambda>r. covers r t) rs)"

text \<open>
  The loop of \<^verbatim>\<open>_merge_busy_ranges\<close> once more, with the last element of \<open>merged\<close> held
  apart from the ranges before it, which the loop never touches again.
\<close>

fun merge_from :: "range \<Rightarrow> range list \<Rightarrow> range list" where
  "merge_from c [] = [c]"
| "merge_from c (r # rest) =
     (if fst r \<le> snd c then merge_from (fst c, max (snd c) (snd r)) rest
      else c # merge_from r rest)"




section \<open>Example data\<close>

text \<open>
  Events and calendars for the instances below. Instants are microseconds on day 0 in
  UTC: 13:40 is 49200000000, 14:00 is 50400000000, 16:00 is 57600000000.
\<close>

definition ev_a :: event where
  "ev_a = \<lparr>ev_id = Some ''a'', ev_status = Some ''confirmed'', ev_description = None,
           ev_start = None, ev_end = None, ev_extra = False\<rparr>"

definition ev_c :: event where
  "ev_c = \<lparr>ev_id = Some ''c'', ev_status = Some ''cancelled'', ev_description = None,
           ev_start = None, ev_end = None, ev_extra = False\<rparr>"

definition ev_blank :: event where
  "ev_blank = \<lparr>ev_id = Some [], ev_status = None, ev_description = None,
           ev_start = None, ev_end = None, ev_extra = False\<rparr>"

definition ev_1340 :: event where
  "ev_1340 = \<lparr>ev_id = Some ''e1'', ev_status = Some ''confirmed'',
     ev_description = Some ''LINE_USER_ID:U1'',
     ev_start = Some (DateTime 49200000000), ev_end = Some (DateTime 51000000000), ev_extra = True\<rparr>"







definition co_empty :: collab where
  "co_empty = \<lparr>cal_list = (\<lambda>a b. Inr []), exec = (\<lambda>c. None)\<rparr>"


definition co_one :: collab where
  "co_one = \<lparr>cal_list = (\<lambda>a b. Inr [ev_1340]), exec = (\<lambda>c. None)\<rparr>"

definition d_change :: intent_data where
  "d_change = \<lparr>intent = ''change'', start_dt = Some (Fixed 54000000000 0),
     end_dt = Some (Fixed 57600000000 0), target_dt = Some (Fixed 50400000000 0), summary = ''checkup'', notes_str = [], timezone = fixed_zone 0\<rparr>"

definition d_incomplete :: intent_data where
  "d_incomplete = \<lparr>intent = ''new'', start_dt = None, end_dt = None,
     target_dt = None, summary = ''checkup'', notes_str = [], timezone = fixed_zone 0\<rparr>"











section \<open>Interval model: properties\<close>

lemma merge_loop_snoc: "merge_loop (pre @ [c]) rest = pre @ merge_from c rest"
proof (induction rest arbitrary: pre c)
  case Nil
  then show ?case by simp
next
  case (Cons r rest)
  obtain s e where r: "r = (s, e)" by (cases r)
  obtain ls le where c: "c = (ls, le)" by (cases c)
  show ?case
  proof (cases "s \<le> le")
    case True
    then show ?thesis using Cons.IH[of pre "(ls, max le e)"] by (simp add: r c)
  next
    case False
    then show ?thesis using Cons.IH[of "pre @ [c]" r] by (simp add: r c)
  qed
qed

lemma merge_busy_ranges_from:
  "merge_busy_ranges rs = (case sort_key fst rs of [] \<Rightarrow> [] | c # rest \<Rightarrow> merge_from c rest)"
proof (cases rs)
  case Nil
  then show ?thesis by (simp add: merge_busy_ranges_def)
next
  case (Cons a as)
  then have "sort_key fst rs \<noteq> []" by (metis length_sort list.size(3) length_0_conv list.distinct(1))
  then obtain c rest where cr: "sort_key fst rs = c # rest" by (cases "sort_key fst rs") auto
  have "rs \<noteq> []" using Cons by simp
  then have "merge_busy_ranges rs = merge_loop [c] rest"
    unfolding merge_busy_ranges_def Let_def cr by simp
  also have "\<dots> = merge_from c rest" using merge_loop_snoc[of "[]" c rest] by simp
  finally show ?thesis unfolding cr by simp
qed



lemma points_Nil [simp]: "points [] = {}"
  by (simp add: points_def)
lemma points_Cons: "points (r # rs) = {t. covers r t} \<union> points rs"
  by (auto simp: points_def)

lemma merge_from_fst_ge:
  "sorted (map fst (c # rest)) \<Longrightarrow> r \<in> set (merge_from c rest) \<Longrightarrow> fst c \<le> fst r"
proof (induction rest arbitrary: c)
  case Nil
  then show ?case by simp
next
  case (Cons x rest)
  show ?case
  proof (cases "fst x \<le> snd c")
    case True
    have "sorted (map fst ((fst c, max (snd c) (snd x)) # rest))" using Cons.prems(1) by simp
    from Cons.IH[OF this] Cons.prems(2) True show ?thesis by simp
  next
    case False
    have s: "sorted (map fst (x # rest))" using Cons.prems(1) by simp
    have "fst c \<le> fst x" using Cons.prems(1) by simp
    with Cons.IH[OF s] Cons.prems(2) False show ?thesis by force
  qed
qed

lemma merge_from_hd: "fst (hd (merge_from c rest)) = fst c \<and> merge_from c rest \<noteq> []"
  by (induction rest arbitrary: c) auto

lemma merge_from_separated:
  "sorted (map fst (c # rest)) \<Longrightarrow> sorted_wrt (\<lambda>a b. snd a < fst b) (merge_from c rest)"
proof (induction rest arbitrary: c)
  case Nil
  then show ?case by simp
next
  case (Cons x rest)
  show ?case
  proof (cases "fst x \<le> snd c")
    case True
    have "sorted (map fst ((fst c, max (snd c) (snd x)) # rest))" using Cons.prems(1) by simp
    from Cons.IH[OF this] True show ?thesis by simp
  next
    case False
    have s: "sorted (map fst (x # rest))" using Cons.prems(1) by simp
    have "\<forall>r \<in> set (merge_from x rest). snd c < fst r"
      using merge_from_fst_ge[OF s] False by force
    with Cons.IH[OF s] False show ?thesis by simp
  qed
qed

lemma merge_from_sorted:
  "sorted (map fst (c # rest)) \<Longrightarrow> sorted (map fst (merge_from c rest))"
proof (induction rest arbitrary: c)
  case Nil
  then show ?case by simp
next
  case (Cons x rest)
  show ?case
  proof (cases "fst x \<le> snd c")
    case True
    have "sorted (map fst ((fst c, max (snd c) (snd x)) # rest))" using Cons.prems(1) by simp
    from Cons.IH[OF this] True show ?thesis by simp
  next
    case False
    have s: "sorted (map fst (x # rest))" using Cons.prems(1) by simp
    have "\<forall>r \<in> set (merge_from x rest). fst c \<le> fst r"
      using merge_from_fst_ge[OF s] Cons.prems(1) by force
    with Cons.IH[OF s] False show ?thesis by simp
  qed
qed

lemma merge_from_points:
  "sorted (map fst (c # rest)) \<Longrightarrow> points (merge_from c rest) = points (c # rest)"
proof (induction rest arbitrary: c)
  case Nil
  then show ?case by simp
next
  case (Cons x rest)
  show ?case
  proof (cases "fst x \<le> snd c")
    case True
    have "sorted (map fst ((fst c, max (snd c) (snd x)) # rest))" using Cons.prems(1) by simp
    from Cons.IH[OF this] have "points (merge_from c (x # rest)) = points ((fst c, max (snd c) (snd x)) # rest)"
      using True by simp
    moreover have "fst c \<le> fst x" using Cons.prems(1) by simp
    then have "{t. covers (fst c, max (snd c) (snd x)) t} = {t. covers c t} \<union> {t. covers x t}"
      using True by (auto simp: covers_def)
    ultimately show ?thesis by (simp add: points_Cons Un_assoc)
  next
    case False
    have s: "sorted (map fst (x # rest))" using Cons.prems(1) by simp
    from Cons.IH[OF s] False show ?thesis by (simp add: points_Cons)
  qed
qed

lemma merge_from_fixed:
  "sorted_wrt (\<lambda>a b. snd a < fst b) (c # rest) \<Longrightarrow> merge_from c rest = c # rest"
  by (induction rest arbitrary: c) auto

lemma merge_busy_ranges_idem: "merge_busy_ranges (merge_busy_ranges rs) = merge_busy_ranges rs"
proof (cases "sort_key fst rs")
  case Nil
  then show ?thesis by (simp add: merge_busy_ranges_from)
next
  case (Cons c rest)
  have s: "sorted (map fst (c # rest))" using sorted_sort_key[of fst rs] Cons by simp
  let ?m = "merge_from c rest"
  have m: "merge_busy_ranges rs = ?m" by (simp add: merge_busy_ranges_from Cons)
  obtain d ds where d: "?m = d # ds" using merge_from_hd[of c rest] by (cases ?m) auto
  have "sort_key fst ?m = ?m" using merge_from_sorted[OF s] by (rule sort_key_id_if_sorted)
  moreover have "merge_from d ds = d # ds" using merge_from_separated[OF s] d merge_from_fixed by simp
  ultimately have "merge_busy_ranges ?m = ?m"
    unfolding merge_busy_ranges_from[of ?m] by (simp only: d list.case)
  then show ?thesis by (simp only: m)
qed

lemma merge_busy_ranges_separated:
  "sorted_wrt (\<lambda>a b. snd a < fst b) (merge_busy_ranges rs)"
proof (cases "sort_key fst rs")
  case Nil
  then show ?thesis by (simp add: merge_busy_ranges_from)
next
  case (Cons c rest)
  have "sorted (map fst (c # rest))" using sorted_sort_key[of fst rs] Cons by simp
  from merge_from_separated[OF this] show ?thesis by (simp add: merge_busy_ranges_from Cons)
qed

lemma merge_busy_ranges_sorted: "sorted (map fst (merge_busy_ranges rs))"
proof (cases "sort_key fst rs")
  case Nil
  then show ?thesis by (simp add: merge_busy_ranges_from)
next
  case (Cons c rest)
  have "sorted (map fst (c # rest))" using sorted_sort_key[of fst rs] Cons by simp
  from merge_from_sorted[OF this] show ?thesis by (simp add: merge_busy_ranges_from Cons)
qed

lemma merge_busy_ranges_points: "points (merge_busy_ranges rs) = points rs"
proof (cases "sort_key fst rs")
  case Nil
  then have "rs = []" by (metis length_sort length_0_conv)
  then show ?thesis by (simp add: merge_busy_ranges_def)
next
  case (Cons c rest)
  have "sorted (map fst (c # rest))" using sorted_sort_key[of fst rs] Cons by simp
  from merge_from_points[OF this] have "points (merge_busy_ranges rs) = points (sort_key fst rs)"
    by (simp add: merge_busy_ranges_from Cons)
  also have "\<dots> = points rs" unfolding points_def by (simp only: set_sort)
  finally show ?thesis .
qed

lemma separated_disjoint:
  assumes "sorted_wrt (\<lambda>a b. snd a < fst b) rs" "i < j" "j < length rs"
  shows "\<not> (covers (rs ! i) t \<and> covers (rs ! j) t)"
proof -
  have "snd (rs ! i) < fst (rs ! j)" using assms by (simp add: sorted_wrt_iff_nth_less)
  then show ?thesis by (auto simp: covers_def)
qed

lemma merge_touching: "a \<le> b \<Longrightarrow> merge_busy_ranges [(a, b), (b, c)] = [(a, max b c)]"
  by (simp add: merge_busy_ranges_def)

lemma mbr_example:
  "merge_busy_ranges [(50, 60), (10, 30), (30, 40), (20, 25)] = [(10, 40), (50, 60)]"
  by (simp add: merge_busy_ranges_def)

text \<open>
  Claim C4. For every list \<open>R\<close> of ranges, overlapping or unordered, \<open>merge_busy_ranges R\<close>
  is sorted ascending by start; its ranges are pairwise disjoint, and more: each one ends
  strictly before every later one starts, so no two of them touch; their union is the
  union of \<open>R\<close>; two touching ranges (the second starts where the first ends) are merged
  into one, as the loop extends the last merged range by any range that starts at its end;
  merging is idempotent; and the empty list gives the empty list.
\<close>

theorem merge_busy_ranges_disjoint_sorted_idempotent:
  "sorted (map fst (merge_busy_ranges R))
   \<and> (\<forall>i j t. i < j \<and> j < length (merge_busy_ranges R) \<longrightarrow>
         snd (merge_busy_ranges R ! i) < fst (merge_busy_ranges R ! j)
         \<and> \<not> (covers (merge_busy_ranges R ! i) t \<and> covers (merge_busy_ranges R ! j) t))
   \<and> points (merge_busy_ranges R) = points R
   \<and> (a \<le> b \<longrightarrow> merge_busy_ranges [(a, b), (b, c)] = [(a, max b c)])
   \<and> merge_busy_ranges (merge_busy_ranges R) = merge_busy_ranges R
   \<and> merge_busy_ranges [] = []
   \<and> merge_loop (pre @ [(last_start, last_end)]) ((last_end, end') # rest)
       = merge_loop (pre @ [(last_start, max last_end end')]) rest"
proof -
  have sep: "sorted_wrt (\<lambda>a b. snd a < fst b) (merge_busy_ranges R)"
    by (rule merge_busy_ranges_separated)
  have "\<forall>i j t. i < j \<and> j < length (merge_busy_ranges R) \<longrightarrow>
         snd (merge_busy_ranges R ! i) < fst (merge_busy_ranges R ! j)
         \<and> \<not> (covers (merge_busy_ranges R ! i) t \<and> covers (merge_busy_ranges R ! j) t)"
  proof (intro allI impI)
    fix i j t
    assume ij: "i < j \<and> j < length (merge_busy_ranges R)"
    then have "snd (merge_busy_ranges R ! i) < fst (merge_busy_ranges R ! j)"
      using sep by (simp add: sorted_wrt_iff_nth_less)
    moreover have "\<not> (covers (merge_busy_ranges R ! i) t \<and> covers (merge_busy_ranges R ! j) t)"
      using separated_disjoint[OF sep, of i j t] ij by simp
    ultimately show "snd (merge_busy_ranges R ! i) < fst (merge_busy_ranges R ! j)
         \<and> \<not> (covers (merge_busy_ranges R ! i) t \<and> covers (merge_busy_ranges R ! j) t)"
      by simp
  qed
  moreover have "merge_busy_ranges [] = []" by (simp add: merge_busy_ranges_def)
  moreover have "merge_loop (pre @ [(last_start, last_end)]) ((last_end, end') # rest)
       = merge_loop (pre @ [(last_start, max last_end end')]) rest"
    by simp
  ultimately show ?thesis
    using merge_busy_ranges_sorted[of R] merge_busy_ranges_points[of R]
      merge_busy_ranges_idem[of R] merge_touching[of a b c]
    by blast
qed

theorem merge_busy_ranges_disjoint_sorted_idempotent_witness:
  "merge_busy_ranges [(50, 60), (10, 30), (30, 40), (20, 25)] = [(10, 40), (50, 60)]
   \<and> sorted (map fst (merge_busy_ranges [(50, 60), (10, 30), (30, 40), (20, 25)]))
   \<and> snd (merge_busy_ranges [(50, 60), (10, 30), (30, 40), (20, 25)] ! 0)
       < fst (merge_busy_ranges [(50, 60), (10, 30), (30, 40), (20, 25)] ! 1)
   \<and> \<not> (covers (merge_busy_ranges [(50, 60), (10, 30), (30, 40), (20, 25)] ! 0) 39
        \<and> covers (merge_busy_ranges [(50, 60), (10, 30), (30, 40), (20, 25)] ! 1) 39)
   \<and> points (merge_busy_ranges [(50, 60), (10, 30), (30, 40), (20, 25)])
       = points [(50, 60), (10, 30), (30, 40), (20, 25)]
   \<and> merge_busy_ranges [(10, 30), (30, 40)] = [(10, max 30 40)]
   \<and> merge_busy_ranges (merge_busy_ranges [(50, 60), (10, 30), (30, 40), (20, 25)])
       = merge_busy_ranges [(50, 60), (10, 30), (30, 40), (20, 25)]"
proof -
  let ?R = "[(50, 60), (10, 30), (30, 40), (20, 25)] :: range list"
  note t = merge_busy_ranges_disjoint_sorted_idempotent [of ?R 10 30 40]
  have len: "(0::nat) < 1 \<and> 1 < length (merge_busy_ranges ?R)"
    by (simp only: mbr_example) simp
  have le: "(10::int) \<le> 30" by simp
  from t have c1: "sorted (map fst (merge_busy_ranges ?R))" by (rule conjunct1)
  from t have c2: "\<forall>i j t. i < j \<and> j < length (merge_busy_ranges ?R) \<longrightarrow>
         snd (merge_busy_ranges ?R ! i) < fst (merge_busy_ranges ?R ! j)
         \<and> \<not> (covers (merge_busy_ranges ?R ! i) t \<and> covers (merge_busy_ranges ?R ! j) t)"
    by (rule conjunct1[OF conjunct2])
  have c2': "snd (merge_busy_ranges ?R ! 0) < fst (merge_busy_ranges ?R ! 1)
         \<and> \<not> (covers (merge_busy_ranges ?R ! 0) 39 \<and> covers (merge_busy_ranges ?R ! 1) 39)"
    by (rule mp[OF spec[OF spec[OF spec[OF c2]]] len])
  from t have c3: "points (merge_busy_ranges ?R) = points ?R"
    by (rule conjunct1[OF conjunct2[OF conjunct2]])
  from t have "(10::int) \<le> 30 \<longrightarrow> merge_busy_ranges [(10, 30), (30, 40)] = [(10, max 30 40)]"
    by (rule conjunct1[OF conjunct2[OF conjunct2[OF conjunct2]]])
  with le have c4: "merge_busy_ranges [(10, 30), (30, 40)] = [(10, max 30 40)]" by (rule rev_mp)
  from t have c5: "merge_busy_ranges (merge_busy_ranges ?R) = merge_busy_ranges ?R"
    by (rule conjunct1[OF conjunct2[OF conjunct2[OF conjunct2[OF conjunct2]]]])
  show ?thesis
    by (rule conjI[OF mbr_example conjI[OF c1 conjI[OF conjunct1[OF c2'] conjI[OF conjunct2[OF c2'] conjI[OF c3 conjI[OF c4 c5]]]]]])
qed

section \<open>Interval model: the effect on the argument\<close>

lemma sort_key_fixed_iff: "(sort_key f xs = xs) = sorted (map f xs)"
  by (metis sorted_sort_key sort_key_id_if_sorted)

lemma heap_example:
  "merge_busy_ranges_heap [[(50, 60), (10, 30), (20, 40)]] 0
     = ([[(10, 30), (20, 40), (50, 60)], [(10, 40), (50, 60)]], 1)"
  by (simp add: merge_busy_ranges_heap_def)

text \<open>
  Claim C10. \<^verbatim>\<open>_merge_busy_ranges\<close> is not pure in its argument. After the call the list
  object that was passed holds the same ranges (as a multiset) reordered ascending by
  start, by a stable sort; it is unchanged exactly when it was sorted by start already.
  The merged result is a list object of its own, at a fresh address different from the
  argument's, and no other list object changes.
\<close>

theorem merge_busy_ranges_heap_sorts_argument:
  "a < length h \<longrightarrow>
     fst (merge_busy_ranges_heap h a) ! a = sort_key fst (h ! a)
     \<and> sorted (map fst (fst (merge_busy_ranges_heap h a) ! a))
     \<and> mset (fst (merge_busy_ranges_heap h a) ! a) = mset (h ! a)
     \<and> (fst (merge_busy_ranges_heap h a) ! a = h ! a) = sorted (map fst (h ! a))
     \<and> snd (merge_busy_ranges_heap h a) = length h
     \<and> snd (merge_busy_ranges_heap h a) \<noteq> a
     \<and> length (fst (merge_busy_ranges_heap h a)) = Suc (length h)
     \<and> fst (merge_busy_ranges_heap h a) ! snd (merge_busy_ranges_heap h a) = merge_busy_ranges (h ! a)
     \<and> (\<forall>b. b < length h \<and> b \<noteq> a \<longrightarrow> fst (merge_busy_ranges_heap h a) ! b = h ! b)"
proof
  assume a: "a < length h"
  show "fst (merge_busy_ranges_heap h a) ! a = sort_key fst (h ! a)
     \<and> sorted (map fst (fst (merge_busy_ranges_heap h a) ! a))
     \<and> mset (fst (merge_busy_ranges_heap h a) ! a) = mset (h ! a)
     \<and> (fst (merge_busy_ranges_heap h a) ! a = h ! a) = sorted (map fst (h ! a))
     \<and> snd (merge_busy_ranges_heap h a) = length h
     \<and> snd (merge_busy_ranges_heap h a) \<noteq> a
     \<and> length (fst (merge_busy_ranges_heap h a)) = Suc (length h)
     \<and> fst (merge_busy_ranges_heap h a) ! snd (merge_busy_ranges_heap h a) = merge_busy_ranges (h ! a)
     \<and> (\<forall>b. b < length h \<and> b \<noteq> a \<longrightarrow> fst (merge_busy_ranges_heap h a) ! b = h ! b)"
  proof (cases "h ! a = []")
    case True
    then have r: "merge_busy_ranges_heap h a = (h @ [[]], length h)"
      by (simp add: merge_busy_ranges_heap_def)
    show ?thesis using a True unfolding r
      by (simp add: nth_append merge_busy_ranges_def)
  next
    case False
    let ?s = "sort_key fst (h ! a)"
    have h': "h[a := ?s] ! a = ?s" using a by simp
    have r: "merge_busy_ranges_heap h a = (h[a := ?s] @ [merge_busy_ranges (h ! a)], length h)"
      using False unfolding merge_busy_ranges_heap_def merge_busy_ranges_def Let_def h' by simp
    have fx: "(?s = h ! a) = sorted (map fst (h ! a))" by (rule sort_key_fixed_iff)
    show ?thesis using a fx unfolding r
      by (simp add: nth_append del: sort_key_simps)
  qed
qed

theorem merge_busy_ranges_heap_sorts_argument_witness:
  "(0::nat) < length [[(50, 60), (10, 30), (20, 40 :: int)]]
   \<and> merge_busy_ranges_heap [[(50, 60), (10, 30), (20, 40)]] 0
        = ([[(10, 30), (20, 40), (50, 60)], [(10, 40), (50, 60)]], 1)
   \<and> fst (merge_busy_ranges_heap [[(50, 60), (10, 30), (20, 40)]] 0) ! 0
        = sort_key fst ([[(50, 60), (10, 30), (20, 40)]] ! 0)
   \<and> [(10, 30), (20, 40), (50, 60)] \<noteq> [(50, 60), (10, 30), (20, 40 :: int)]"
proof -
  have l: "(0::nat) < length [[(50, 60), (10, 30), (20, 40 :: int)]]" by simp
  have s: "fst (merge_busy_ranges_heap [[(50, 60), (10, 30), (20, 40)]] 0) ! 0
        = sort_key fst ([[(50, 60), (10, 30), (20, 40)]] ! 0)"
    by (rule conjunct1[OF mp[OF merge_busy_ranges_heap_sorts_argument l]])
  have n: "[(10, 30), (20, 40), (50, 60)] \<noteq> [(50, 60), (10, 30), (20, 40 :: int)]" by simp
  show ?thesis by (rule conjI[OF l conjI[OF heap_example conjI[OF s n]]])
qed

section \<open>Conflict detector: properties\<close>

lemma has_conflict_iff_ex:
  "has_conflict events ex =
     (\<exists>e \<in> set events. ev_status e \<noteq> Some ''cancelled'' \<and> \<not> (str_truthy ex \<and> ev_id e = ex))"
  by (induction events) auto

text \<open>
  Claim C5. \<open>has_conflict events exclude_event_id\<close> is true exactly when some event of the
  list is neither cancelled nor the excluded event (the event whose id is the given,
  non-empty, id). In particular the empty list has no conflict, and a list of cancelled
  events has none, whatever the excluded id.
\<close>

theorem has_conflict_iff_qualifying_event:
  "has_conflict events ex =
     (\<exists>e \<in> set events. ev_status e \<noteq> Some ''cancelled'' \<and> \<not> (str_truthy ex \<and> ev_id e = ex))
   \<and> has_conflict [] ex = False
   \<and> ((\<forall>e \<in> set events. ev_status e = Some ''cancelled'') \<longrightarrow> has_conflict events ex = False)"
  using has_conflict_iff_ex[of events ex] by auto

theorem has_conflict_iff_qualifying_event_witness:
  "has_conflict [ev_c, ev_a] (Some ''b'') = True
   \<and> has_conflict [ev_c, ev_a] (Some ''a'') = False
   \<and> has_conflict [ev_c] (Some ''b'') = False"
proof -
  have c: "\<forall>e \<in> set [ev_c]. ev_status e = Some ''cancelled''" by (simp add: ev_c_def)
  have 1: "has_conflict [ev_c] (Some ''b'') = False"
    by (rule mp[OF conjunct2[OF conjunct2[OF has_conflict_iff_qualifying_event]] c])
  have 2: "has_conflict [ev_c, ev_a] (Some ''b'') = True"
    unfolding conjunct1[OF has_conflict_iff_qualifying_event[of "[ev_c, ev_a]" "Some ''b''"]]
    by (simp add: ev_a_def ev_c_def str_truthy_def)
  have 3: "has_conflict [ev_c, ev_a] (Some ''a'') = False"
    unfolding conjunct1[OF has_conflict_iff_qualifying_event[of "[ev_c, ev_a]" "Some ''a''"]]
    by (simp add: ev_a_def ev_c_def str_truthy_def)
  show ?thesis by (rule conjI[OF 2 conjI[OF 3 1]])
qed

text \<open>
  Claim C9. Only the status that is exactly the string \<^verbatim>\<open>cancelled\<close> is skipped: an event
  with no status, or with any other status, counts. And when the excluded id is \<^verbatim>\<open>None\<close>
  or the empty string, no event is excluded, not even one whose id is the empty string.
\<close>

theorem has_conflict_exact_status_no_exclusion:
  "((ex = None \<or> ex = Some []) \<longrightarrow>
      has_conflict events ex = (\<exists>e \<in> set events. ev_status e \<noteq> Some ''cancelled''))
   \<and> (ev_status e \<noteq> Some ''cancelled'' \<longrightarrow>
        has_conflict [e] None \<and> has_conflict [e] (Some []) \<and> has_conflict [e\<lparr>ev_id := Some []\<rparr>] (Some []))
   \<and> has_conflict [e\<lparr>ev_status := None\<rparr>] None
   \<and> has_conflict [e\<lparr>ev_status := Some ''Cancelled''\<rparr>] None
   \<and> has_conflict [e\<lparr>ev_status := Some ''canceled''\<rparr>] None
   \<and> \<not> has_conflict [e\<lparr>ev_status := Some ''cancelled''\<rparr>] ex"
  using has_conflict_iff_ex[of events ex] by (auto simp: str_truthy_def)

theorem has_conflict_exact_status_no_exclusion_witness:
  "ev_status ev_blank \<noteq> Some ''cancelled''
   \<and> has_conflict [ev_blank] None \<and> has_conflict [ev_blank] (Some [])
   \<and> has_conflict [ev_blank\<lparr>ev_id := Some []\<rparr>] (Some [])
   \<and> has_conflict [ev_c, ev_blank] (Some []) = (\<exists>e \<in> set [ev_c, ev_blank]. ev_status e \<noteq> Some ''cancelled'')"
proof -
  have s: "ev_status ev_blank \<noteq> Some ''cancelled''" by (simp add: ev_blank_def)
  have x: "Some [] = None \<or> Some ([]::string) = Some []" by simp
  note t = has_conflict_exact_status_no_exclusion[of "Some []" "[ev_c, ev_blank]" ev_blank]
  have a: "has_conflict [ev_blank] None \<and> has_conflict [ev_blank] (Some [])
      \<and> has_conflict [ev_blank\<lparr>ev_id := Some []\<rparr>] (Some [])"
    by (rule mp[OF conjunct1[OF conjunct2[OF t]] s])
  have b: "has_conflict [ev_c, ev_blank] (Some []) = (\<exists>e \<in> set [ev_c, ev_blank]. ev_status e \<noteq> Some ''cancelled'')"
    by (rule mp[OF conjunct1[OF t] x])
  show ?thesis
    by (rule conjI[OF s conjI[OF conjunct1[OF a] conjI[OF conjunct1[OF conjunct2[OF a]] conjI[OF conjunct2[OF conjunct2[OF a]] b]]]])
qed

section \<open>Float arithmetic: properties\<close>






section \<open>Target event resolver: properties\<close>








lemma hours4: "hours 4 = 14400000000" "- hours 4 = - 14400000000"
  by (simp_all add: hours_def)

lemma window_1400:
  "dt_add (Fixed 50400000000 0) (- hours 4) = Inr (Fixed 36000000000 0)"
  "dt_add (Fixed 50400000000 0) (hours 4) = Inr (Fixed 64800000000 0)"
  by (simp_all add: hours4 min_wall_def max_wall_def)
















section \<open>Booking decision: properties\<close>


lemma find_target_no_mutation:
  "filter is_mutation (fst (find_target_event co user_id target z now)) = []"
  by (simp add: find_target_event_def list_events_def split: sum.splits prod.splits)






lemma handle_change_none:
  "intent d = ''change'' \<Longrightarrow> start_dt d = Some s \<Longrightarrow> end_dt d = Some e \<Longrightarrow>
   snd (find_target_event co user_id (target_dt d) (timezone d) now) = Inr None \<Longrightarrow>
   handle_message cfg co user_id mode now (Inr d) =
     (fst (find_target_event co user_id (target_dt d) (timezone d) now), Not_found)"
  by (simp add: handle_message_def split_beta)














lemma d_change_fields:
  "intent d_change = ''change''" "start_dt d_change = Some (Fixed 54000000000 0)"
  "end_dt d_change = Some (Fixed 57600000000 0)" "target_dt d_change = Some (Fixed 50400000000 0)"
  "timezone d_change = fixed_zone 0"
  by (simp_all add: d_change_def)

lemma d_change_window:
  "search_window (Some (Fixed 50400000000 0)) now = Inr (Fixed 36000000000 0, Fixed 64800000000 0)"
  by (simp add: search_window_def window_1400 del: dt_add.simps)



lemma find_empty:
  "find_target_event co_empty ''U1'' (Some (Fixed 50400000000 0)) (fixed_zone 0) (0, False)
     = ([CalList (Fixed 36000000000 0) (Fixed 64800000000 0)], Inr None)"
  by (simp add: find_target_event_def list_events_def d_change_window co_empty_def)


lemma refuse_no_mutation: "filter is_mutation (fst (refuse cfg co z s e)) = []"
  by (simp add: refuse_def list_events_def Let_def split: sum.splits option.splits)

lemma commit_outcome:
  "snd (commit co k target body) \<noteq> Not_found \<and> snd (commit co k target body) \<noteq> Conflict slots"
  by (simp add: commit_def split: option.splits)

lemma book_no_mutation:
  "snd (book cfg co user_id mode d target) = Not_found \<or> snd (book cfg co user_id mode d target) = Conflict slots
   \<Longrightarrow> filter is_mutation (fst (book cfg co user_id mode d target)) = []"
  using commit_outcome[of co "intent d" target _ slots] refuse_no_mutation[of cfg co "timezone d"]
  by (auto simp: book_def list_events_def Let_def split_beta split: option.splits sum.splits if_splits)

lemma handle_no_mutation:
  "snd (handle_message cfg co user_id mode now x) = Not_found
   \<or> snd (handle_message cfg co user_id mode now x) = Conflict slots
   \<Longrightarrow> filter is_mutation (fst (handle_message cfg co user_id mode now x)) = []"
proof (cases x)
  case (Inl err)
  then show ?thesis by (simp add: handle_message_def)
next
  case (Inr d)
  assume o: "snd (handle_message cfg co user_id mode now x) = Not_found
   \<or> snd (handle_message cfg co user_id mode now x) = Conflict slots"
  note ft = find_target_no_mutation[of co user_id "target_dt d" "timezone d" now]
  show ?thesis
  proof (cases "(intent d = ''new'' \<or> intent d = ''change'') \<and> (start_dt d = None \<or> end_dt d = None)")
    case True
    then show ?thesis using Inr by (simp add: handle_message_def)
  next
    case v: False
    show ?thesis
    proof (cases "intent d = ''cancel''")
      case True
      then show ?thesis using Inr o ft v
        by (auto simp: handle_message_def split_beta split: sum.splits option.splits if_splits)
    next
      case nc: False
      show ?thesis
      proof (cases "intent d = ''change''")
        case True
        then show ?thesis using Inr o ft v nc book_no_mutation[of cfg co user_id mode d _ slots]
          by (auto simp: handle_message_def split_beta split: sum.splits option.splits if_splits)
      next
        case False
        then have "handle_message cfg co user_id mode now x = book cfg co user_id mode d None"
          using Inr v nc by (auto simp: handle_message_def)
        then show ?thesis using o book_no_mutation[of cfg co user_id mode d None slots] by simp
      qed
    qed
  qed
qed

text \<open>
  Claim C8. When a request ends with \<^verbatim>\<open>not_found\<close> or with \<^verbatim>\<open>conflict\<close>, and when a \<^verbatim>\<open>new\<close>
  or \<^verbatim>\<open>change\<close> intent lacks its start or its end (which ends the request with the
  validation error before any call), the handler has issued no insert, update or delete,
  so the event store after the request is the store before it.
\<close>

theorem refusal_paths_issue_no_mutation:
  "(snd (handle_message cfg co user_id mode now (Inr d)) = Not_found
    \<or> snd (handle_message cfg co user_id mode now (Inr d)) = Conflict slots
    \<or> ((intent d = ''new'' \<or> intent d = ''change'') \<and> (start_dt d = None \<or> end_dt d = None)))
   \<longrightarrow> filter is_mutation (fst (handle_message cfg co user_id mode now (Inr d))) = []
       \<and> store_after apply_call store (fst (handle_message cfg co user_id mode now (Inr d))) = store
       \<and> ((intent d = ''new'' \<or> intent d = ''change'') \<and> (start_dt d = None \<or> end_dt d = None)
           \<longrightarrow> handle_message cfg co user_id mode now (Inr d) = ([], Failed ValueError))"
proof
  assume a: "snd (handle_message cfg co user_id mode now (Inr d)) = Not_found
    \<or> snd (handle_message cfg co user_id mode now (Inr d)) = Conflict slots
    \<or> ((intent d = ''new'' \<or> intent d = ''change'') \<and> (start_dt d = None \<or> end_dt d = None))"
  have v: "(intent d = ''new'' \<or> intent d = ''change'') \<and> (start_dt d = None \<or> end_dt d = None)
           \<longrightarrow> handle_message cfg co user_id mode now (Inr d) = ([], Failed ValueError)"
    by (simp add: handle_message_def)
  have m: "filter is_mutation (fst (handle_message cfg co user_id mode now (Inr d))) = []"
  proof (cases "(intent d = ''new'' \<or> intent d = ''change'') \<and> (start_dt d = None \<or> end_dt d = None)")
    case True
    then show ?thesis using v by simp
  next
    case False
    with a have "snd (handle_message cfg co user_id mode now (Inr d)) = Not_found
        \<or> snd (handle_message cfg co user_id mode now (Inr d)) = Conflict slots"
      by simp
    then show ?thesis by (rule handle_no_mutation)
  qed
  then have "store_after apply_call store (fst (handle_message cfg co user_id mode now (Inr d))) = store"
    by (simp add: store_after_def)
  from this m v show "filter is_mutation (fst (handle_message cfg co user_id mode now (Inr d))) = []
       \<and> store_after apply_call store (fst (handle_message cfg co user_id mode now (Inr d))) = store
       \<and> ((intent d = ''new'' \<or> intent d = ''change'') \<and> (start_dt d = None \<or> end_dt d = None)
           \<longrightarrow> handle_message cfg co user_id mode now (Inr d) = ([], Failed ValueError))"
    by simp
qed

lemma handle_change_empty:
  "handle_message default_config co_empty ''U1'' ''dental'' (0, False) (Inr d_change) =
     ([CalList (Fixed 36000000000 0) (Fixed 64800000000 0)], Not_found)"
  using handle_change_none[of d_change "Fixed 54000000000 0" "Fixed 57600000000 0" co_empty "''U1''"
      "(0, False)" default_config "''dental''"]
  by (simp add: d_change_fields find_empty)

theorem refusal_paths_issue_no_mutation_witness:
  "snd (handle_message default_config co_empty ''U1'' ''dental'' (0, False) (Inr d_change)) = Not_found
   \<and> filter is_mutation (fst (handle_message default_config co_empty ''U1'' ''dental'' (0, False) (Inr d_change))) = []
   \<and> store_after (\<lambda>n c. Suc n) (7::nat)
        (fst (handle_message default_config co_empty ''U1'' ''dental'' (0, False) (Inr d_change))) = 7
   \<and> handle_message default_config co_one ''U1'' ''dental'' (0, False) (Inr d_incomplete) = ([], Failed ValueError)"
proof -
  have o: "snd (handle_message default_config co_empty ''U1'' ''dental'' (0, False) (Inr d_change)) = Not_found"
    by (simp add: handle_change_empty)
  have h1: "snd (handle_message default_config co_empty ''U1'' ''dental'' (0, False) (Inr d_change)) = Not_found
    \<or> snd (handle_message default_config co_empty ''U1'' ''dental'' (0, False) (Inr d_change)) = Conflict []
    \<or> ((intent d_change = ''new'' \<or> intent d_change = ''change'')
        \<and> (start_dt d_change = None \<or> end_dt d_change = None))"
    by (rule disjI1[OF o])
  note t1 = mp[OF refusal_paths_issue_no_mutation[of default_config co_empty "''U1''" "''dental''" "(0, False)"
        d_change "[]" "\<lambda>n c. Suc n" "7::nat"] h1]
  have v: "(intent d_incomplete = ''new'' \<or> intent d_incomplete = ''change'')
        \<and> (start_dt d_incomplete = None \<or> end_dt d_incomplete = None)"
    by (simp add: d_incomplete_def)
  have h2: "snd (handle_message default_config co_one ''U1'' ''dental'' (0, False) (Inr d_incomplete)) = Not_found
    \<or> snd (handle_message default_config co_one ''U1'' ''dental'' (0, False) (Inr d_incomplete)) = Conflict []
    \<or> ((intent d_incomplete = ''new'' \<or> intent d_incomplete = ''change'')
        \<and> (start_dt d_incomplete = None \<or> end_dt d_incomplete = None))"
    by (rule disjI2[OF disjI2[OF v]])
  note t2 = mp[OF refusal_paths_issue_no_mutation[of default_config co_one "''U1''" "''dental''" "(0, False)"
        d_incomplete "[]" "\<lambda>n c. Suc n" "7::nat"] h2]
  have r: "handle_message default_config co_one ''U1'' ''dental'' (0, False) (Inr d_incomplete) = ([], Failed ValueError)"
    by (rule mp[OF conjunct2[OF conjunct2[OF t2]] v])
  show ?thesis
    by (rule conjI[OF o conjI[OF conjunct1[OF t1] conjI[OF conjunct1[OF conjunct2[OF t1]] r]]])
qed

section \<open>Free-slot calculator: properties\<close>

lemma cover_count_append [simp]:
  "cover_count t (xs @ ys) = cover_count t xs + cover_count t ys"
  by (simp add: cover_count_def)

lemma cover_count_Nil [simp]: "cover_count t [] = 0"
  by (simp add: cover_count_def)




















end
